theory Spec2Isabelle
  imports Main "HOL-Library.AList"
begin

section \<open>Values, exceptions and the state container\<close>

text \<open>
  The exceptions a step can raise and a composition can catch. Both handlers of
  \<^verbatim>\<open>pipe/core/base.py\<close> are \<^verbatim>\<open>except Exception\<close>, so a value of this type stands for
  an instance of Python's \<^verbatim>\<open>Exception\<close>: the two classes of \<^verbatim>\<open>pipe.core.exceptions\<close>,
  the built-in errors the code of \<^verbatim>\<open>base.py\<close> can provoke itself, the error the
  validation library raises on a schema it cannot parse, and any other exception class,
  told apart by its text.
\<close>

datatype exn =
    StepValidationException string
  | StepExecutionException string
  | AttributeError string
  | TypeError string
  | KeyError string
  | SchemaError string
  | Exception string

text \<open>
  The values held in a container. A container (\<^verbatim>\<open>frozendict\<close>) is a mapping with string
  keys; it is kept as an association list in insertion order, as Python's dictionaries
  are, and read through \<^const>\<open>map_of\<close>. The annotations of the source give every step
  the type \<^verbatim>\<open>frozendict -> frozendict\<close>.
\<close>

datatype val =
    VNone
  | VBool bool
  | VInt int
  | VStr string
  | VExc exn
  | VDict "(string \<times> val) list"

type_synonym frozendict = "(string \<times> val) list"

text \<open>
  \<^verbatim>\<open>store.copy(**kw)\<close> builds \<^verbatim>\<open>frozendict(store, **kw)\<close>: a new mapping in which every
  keyword replaces the value of an existing key in place, or is appended.
\<close>

definition copy :: "frozendict \<Rightarrow> (string \<times> val) list \<Rightarrow> frozendict" where
  "copy store kw = fold (\<lambda>(k, v). AList.update k v) kw store"

section \<open>Steps and their composition\<close>

text \<open>
  A step, as the pipe and the operators see it: the name of its class and its \<^verbatim>\<open>run\<close>
  method. Everything a step can read or change besides its argument (its own attributes,
  a database, the clock) is the world \<open>'w\<close>, passed in and returned; raising is the
  result \<open>Inl\<close>.
\<close>

type_synonym 'w run_method = "frozendict \<Rightarrow> 'w \<Rightarrow> (exn + frozendict) \<times> 'w"

record 'w step =
  class_name :: string
  run :: "'w run_method"

text \<open>
  \<^verbatim>\<open>Step.__and__\<close>: the class \<^verbatim>\<open>AndStep\<close> made by \<^verbatim>\<open>Step.factory\<close>, with
  \<^verbatim>\<open>obj_a = self\<close> and \<^verbatim>\<open>obj_b = other\<close>, instantiated at once. Its \<^verbatim>\<open>run\<close> has both
  calls inside one \<^verbatim>\<open>try\<close>; the handler returns \<^verbatim>\<open>store\<close>.
\<close>

definition Step_and :: "'w step \<Rightarrow> 'w step \<Rightarrow> 'w step" where
  "Step_and self other =
     \<lparr> class_name = ''AndStep'',
       run = (\<lambda>store w.
         case run self store w of
           (Inl e, w1) \<Rightarrow> (Inr store, w1)
         | (Inr result_a, w1) \<Rightarrow>
             (case run other store w1 of
                (Inl e, w2) \<Rightarrow> (Inr store, w2)
              | (Inr result_b, w2) \<Rightarrow>
                  (Inr (copy store [(''obj_a'', VDict result_a), (''obj_b'', VDict result_b)]),
                   w2))) \<rparr>"

text \<open>
  \<^verbatim>\<open>Step.__or__\<close>: the class \<^verbatim>\<open>OrStep\<close>. Only the first call is inside the \<^verbatim>\<open>try\<close>;
  the handler stores the exception under \<^verbatim>\<open>exception\<close> and calls the second step, whose
  own exceptions propagate.
\<close>

definition Step_or :: "'w step \<Rightarrow> 'w step \<Rightarrow> 'w step" where
  "Step_or self other =
     \<lparr> class_name = ''OrStep'',
       run = (\<lambda>store w.
         case run self store w of
           (Inr result, w1) \<Rightarrow> (Inr result, w1)
         | (Inl e, w1) \<Rightarrow> run other (copy store [(''exception'', VExc e)]) w1) \<rparr>"

section \<open>The pipe executor\<close>

text \<open>
  The hooks a subclass of \<^verbatim>\<open>BasePipe\<close> may override. They are functions of the container
  they receive, as the three methods of the base class are and as the specification
  requires of them; an override that reads or changes other state of the pipe is not a
  value of this type, and no statement below is made about one.
\<close>

record hooks =
  before_pipe :: "frozendict \<Rightarrow> frozendict"
  after_pipe :: "frozendict \<Rightarrow> frozendict"
  interrupt :: "frozendict \<Rightarrow> bool"

definition BasePipe :: hooks where
  "BasePipe = \<lparr> before_pipe = (\<lambda>store. store), after_pipe = (\<lambda>store. store),
                interrupt = (\<lambda>store. False) \<rparr>"

text \<open>
  What a run of a pipe works on: the two attributes of the pipe object (\<^verbatim>\<open>self.store\<close>
  and the private inspection flag), what \<^verbatim>\<open>__print_step\<close> has written to the console,
  and the world of the steps.
\<close>

record 'w pipe =
  self_store :: frozendict
  inspection_mode :: bool
  console :: "(string \<times> frozendict) list"
  world :: 'w

text \<open>\<^verbatim>\<open>BasePipe.__init__\<close>, on a console and a world as they are at construction.\<close>

definition init :: "hooks \<Rightarrow> frozendict \<Rightarrow> bool \<Rightarrow> (string \<times> frozendict) list \<Rightarrow> 'w \<Rightarrow> 'w pipe" where
  "init h initial inspection out w =
     \<lparr> self_store = before_pipe h initial, inspection_mode = inspection, console = out, world = w \<rparr>"

definition set_inspection :: "bool \<Rightarrow> 'w pipe \<Rightarrow> bool \<times> 'w pipe" where
  "set_inspection enable p = (enable, p\<lparr>inspection_mode := enable\<rparr>)"

text \<open>\<^verbatim>\<open>__print_step\<close>: the class of the step and the store go to the console.\<close>

definition print_step :: "'w step \<Rightarrow> 'w pipe \<Rightarrow> 'w pipe" where
  "print_step item p = p\<lparr>console := console p @ [(class_name item, self_store p)]\<rparr>"

text \<open>
  One turn of the loop of \<^verbatim>\<open>_run_pipe\<close> and the three ways it ends: the step raises
  (nothing in \<^verbatim>\<open>_run_pipe\<close> catches it), the interruption predicate holds of the step's
  result and \<^verbatim>\<open>_run_pipe\<close> returns, or the result is assigned to \<^verbatim>\<open>self.store\<close> and the loop
  goes on.
\<close>

datatype flow = Raised exn | Returned frozendict | Next

definition iteration :: "hooks \<Rightarrow> 'w step \<Rightarrow> 'w pipe \<Rightarrow> flow \<times> 'w pipe" where
  "iteration h item p =
     (let p1 = (if inspection_mode p then print_step item p else p) in
      case run item (self_store p1) (world p1) of
        (Inl e, w') \<Rightarrow> (Raised e, p1\<lparr>world := w'\<rparr>)
      | (Inr intermediate_store, w') \<Rightarrow>
          if interrupt h intermediate_store
          then (Returned (after_pipe h intermediate_store), p1\<lparr>world := w'\<rparr>)
          else (Next, p1\<lparr>self_store := intermediate_store, world := w'\<rparr>))"

text \<open>\<^verbatim>\<open>BasePipe._run_pipe\<close>: the value returned, or the exception, and the state left.\<close>

fun run_pipe :: "hooks \<Rightarrow> 'w step list \<Rightarrow> 'w pipe \<Rightarrow> (exn + frozendict) \<times> 'w pipe" where
  "run_pipe h [] p = (Inr (after_pipe h (self_store p)), p)"
| "run_pipe h (item # rest) p =
     (case iteration h item p of
        (Raised e, p') \<Rightarrow> (Inl e, p')
      | (Returned r, p') \<Rightarrow> (Inr r, p')
      | (Next, p') \<Rightarrow> run_pipe h rest p')"

text \<open>\<^verbatim>\<open>NamedPipe.run_pipe\<close>: a name that is not in the schema selects the empty sequence.\<close>

definition NamedPipe_run_pipe ::
  "hooks \<Rightarrow> (string \<times> 'w step list) list \<Rightarrow> string \<Rightarrow> 'w pipe \<Rightarrow> (exn + frozendict) \<times> 'w pipe" where
  "NamedPipe_run_pipe h pipe_schema name p =
     run_pipe h (case map_of pipe_schema name of None \<Rightarrow> [] | Some pipe_to_run \<Rightarrow> pipe_to_run) p"

text \<open>
  The steps of a sequence are committed from \<open>p\<close> when each of them returns and the
  interruption predicate holds of none of the results; the state is then the one the
  loop has reached behind them.
\<close>

fun commits :: "hooks \<Rightarrow> 'w step list \<Rightarrow> 'w pipe \<Rightarrow> 'w pipe option" where
  "commits h [] p = Some p"
| "commits h (item # rest) p =
     (case iteration h item p of
        (Next, p') \<Rightarrow> commits h rest p'
      | _ \<Rightarrow> None)"

text \<open>
  A step is a pure function of its input container when neither its result nor
  whether it raises depends on the world, and it leaves the world as it found it.
\<close>

definition pure_step :: "'w step \<Rightarrow> bool" where
  "pure_step s = (\<forall>c w w'. run s c w = (fst (run s c w'), w))"

section \<open>Validation and dispatch of the base class\<close>

text \<open>
  A validation schema is a dictionary from string keys to rules; the rules belong to the
  validation library and stay abstract (\<open>'r\<close>).
\<close>

type_synonym 'r schema = "(string \<times> 'r) list"

text \<open>
  An instance of a subclass of \<^verbatim>\<open>Step\<close> that inherits \<^verbatim>\<open>Step.run\<close>: its class name, the
  tuple \<^verbatim>\<open>_available_methods\<close>, \<^verbatim>\<open>required_fields\<close> (which may be \<^verbatim>\<open>None\<close>), the attributes
  \<^verbatim>\<open>getattr\<close> finds, and the capability methods it defines.
\<close>

record ('r, 'w) Step =
  cls_name :: string
  available_methods :: "string list"
  required_fields :: "'r schema option"
  attributes :: "(string \<times> val) list"
  methods :: "(string \<times> 'w run_method) list"

definition startswith :: "string \<Rightarrow> string \<Rightarrow> bool" where
  "startswith key p = (take (length p) key = p)"

definition endswith :: "string \<Rightarrow> string \<Rightarrow> bool" where
  "endswith key p = (length p \<le> length key \<and> drop (length key - length p) key = p)"

text \<open>The test of \<^verbatim>\<open>_parse_dynamic_fields\<close> on a key.\<close>

definition dynamic :: "string \<Rightarrow> bool" where
  "dynamic key = ((startswith key ''+{'' \<or> startswith key ''{'') \<and> endswith key ''}'')"

text \<open>
  \<^verbatim>\<open>re.sub(r'\{|\}', '', key)\<close> removes every brace of the key, and
  \<^verbatim>\<open>.replace('+', '')\<close> every plus sign of what is left.
\<close>

definition variable_name :: "string \<Rightarrow> string" where
  "variable_name key = filter (\<lambda>c. c \<noteq> CHR ''{'' \<and> c \<noteq> CHR ''}'') key"

definition attribute_name :: "string \<Rightarrow> string" where
  "attribute_name key = filter (\<lambda>c. c \<noteq> CHR ''+'') (variable_name key)"

definition getattr :: "(string \<times> val) list \<Rightarrow> string \<Rightarrow> exn + val" where
  "getattr attrs a = (case map_of attrs a of None \<Rightarrow> Inl (AttributeError a) | Some v \<Rightarrow> Inr v)"

text \<open>
  The loop of \<^verbatim>\<open>_parse_dynamic_fields\<close> over the keys listed before it starts. It works
  on \<^verbatim>\<open>self.required_fields\<close> in place (\<^verbatim>\<open>del\<close>), so the dictionary is returned also when
  the loop raises. \<^verbatim>\<open>dynamic_config\<close> is keyed by whatever \<^verbatim>\<open>getattr\<close> returned; a key that
  is not in the dictionary makes \<^verbatim>\<open>del\<close> raise.
\<close>

fun parse_keys ::
  "(string \<times> val) list \<Rightarrow> string list \<Rightarrow> 'r schema \<Rightarrow> (val \<times> 'r) list
     \<Rightarrow> (exn + (val \<times> 'r) list) \<times> 'r schema" where
  "parse_keys attrs [] rf dynamic_config = (Inr dynamic_config, rf)"
| "parse_keys attrs (key # keys) rf dynamic_config =
     (if dynamic key then
        (case getattr attrs (attribute_name key) of
           Inl e \<Rightarrow> (Inl e, rf)
         | Inr v \<Rightarrow>
             (case map_of rf key of
                None \<Rightarrow> (Inl (KeyError key), rf)
              | Some rule \<Rightarrow>
                  parse_keys attrs keys (AList.delete key rf) (AList.update v rule dynamic_config)))
      else parse_keys attrs keys rf dynamic_config)"

text \<open>
  \<^verbatim>\<open>dict(**self.required_fields, **dynamic_config)\<close>: no keyword may be given twice, and
  keyword arguments are strings; Python raises \<^verbatim>\<open>TypeError\<close> otherwise. The two
  dictionaries are merged first, which finds a keyword given twice; that the keywords are
  strings is checked by the call.
\<close>

fun kwargs :: "(val \<times> 'r) list \<Rightarrow> (string \<times> 'r) list option" where
  "kwargs [] = Some []"
| "kwargs ((VStr k, rule) # kvs) =
     (case kwargs kvs of None \<Rightarrow> None | Some kw \<Rightarrow> Some ((k, rule) # kw))"
| "kwargs (_ # kvs) = None"

fun duplicate_keyword :: "string list \<Rightarrow> (val \<times> 'r) list \<Rightarrow> string option" where
  "duplicate_keyword ks [] = None"
| "duplicate_keyword ks ((VStr k, rule) # kvs) =
     (if k \<in> set ks then Some k else duplicate_keyword ks kvs)"
| "duplicate_keyword ks (_ # kvs) = duplicate_keyword ks kvs"

definition merge :: "'r schema \<Rightarrow> (val \<times> 'r) list \<Rightarrow> exn + 'r schema" where
  "merge rf dynamic_config =
     (case duplicate_keyword (map fst rf) dynamic_config of
        Some k \<Rightarrow>
          Inl (TypeError (''dict() got multiple values for keyword argument ''
                           @ [CHR 0x27] @ k @ [CHR 0x27]))
      | None \<Rightarrow>
          (case kwargs dynamic_config of
             None \<Rightarrow> Inl (TypeError ''keywords must be strings'')
           | Some kw \<Rightarrow> Inr (rf @ kw)))"

text \<open>
  \<^verbatim>\<open>Step._parse_dynamic_fields\<close>: the exception, if one is raised, and the instance with
  \<^verbatim>\<open>required_fields\<close> as the method leaves it.
\<close>

definition parse_dynamic_fields :: "('r, 'w) Step \<Rightarrow> exn option \<times> ('r, 'w) Step" where
  "parse_dynamic_fields self =
     (case required_fields self of
        None \<Rightarrow> (Some (AttributeError ''keys''), self)
      | Some rf \<Rightarrow>
          (case parse_keys (attributes self) (map fst rf) rf [] of
             (Inl e, rf') \<Rightarrow> (Some e, self\<lparr>required_fields := Some rf'\<rparr>)
           | (Inr dynamic_config, rf') \<Rightarrow>
               (case merge rf' dynamic_config of
                  Inl e \<Rightarrow> (Some e, self\<lparr>required_fields := Some rf'\<rparr>)
                | Inr merged \<Rightarrow> (None, self\<lparr>required_fields := Some merged\<rparr>))))"

text \<open>
  The validation library is not part of the repository. It is the parameter \<open>V\<close>:
  \<open>V rf store\<close> stands for \<^verbatim>\<open>V.parse(rf).validate(store)\<close>. Parsing the schema can raise
  the library's \<^verbatim>\<open>SchemaError\<close>, which no handler of \<^verbatim>\<open>Step.validate\<close> catches; the
  validator either raises \<^verbatim>\<open>ValidationError\<close> with a message or returns the adapted
  mapping.
\<close>

datatype verdict =
    Unparsed string
  | ValidationError string
  | Adapted "(string \<times> val) list"

type_synonym 'r validator = "'r schema option \<Rightarrow> frozendict \<Rightarrow> verdict"

definition validation_message :: "string \<Rightarrow> string \<Rightarrow> string" where
  "validation_message cls msg =
     ''Validation for step '' @ cls @ '' failed with error '' @ [CHR 0x0A] @ msg"

text \<open>\<^verbatim>\<open>Step.validate\<close>.\<close>

definition validate ::
  "'r validator \<Rightarrow> ('r, 'w) Step \<Rightarrow> frozendict \<Rightarrow> (exn + frozendict) \<times> ('r, 'w) Step" where
  "validate V self store =
     (case parse_dynamic_fields self of
        (Some e, self') \<Rightarrow> (Inl e, self')
      | (None, self') \<Rightarrow>
          (case V (required_fields self') store of
             Unparsed msg \<Rightarrow> (Inl (SchemaError msg), self')
           | ValidationError msg \<Rightarrow>
               (Inl (StepValidationException (validation_message (cls_name self') msg)), self')
           | Adapted adapted \<Rightarrow> (Inr (copy store adapted), self')))"

text \<open>
  The scan of \<^verbatim>\<open>_available_methods\<close> at the end of \<^verbatim>\<open>Step.run\<close>: the first method the
  instance has is called and its result returned.
\<close>

fun join :: "string \<Rightarrow> string list \<Rightarrow> string" where
  "join sep [] = []"
| "join sep [x] = x"
| "join sep (x # y # ys) = x @ sep @ join sep (y # ys)"

fun dispatch :: "('r, 'w) Step \<Rightarrow> string list \<Rightarrow> 'w run_method" where
  "dispatch self [] store w =
     (Inl (StepExecutionException
        (''You should define one of this methods - '' @ join '','' (available_methods self))), w)"
| "dispatch self (meth # rest) store w =
     (case map_of (methods self) meth of
        Some f \<Rightarrow> f store w
      | None \<Rightarrow> dispatch self rest store w)"

text \<open>\<^verbatim>\<open>Step.run\<close>: the result, the instance as validation leaves it, and the world.\<close>

definition Step_run ::
  "'r validator \<Rightarrow> ('r, 'w) Step \<Rightarrow> frozendict \<Rightarrow> 'w
     \<Rightarrow> (exn + frozendict) \<times> ('r, 'w) Step \<times> 'w" where
  "Step_run V self store w =
     (case required_fields self of
        None \<Rightarrow>
          (case dispatch self (available_methods self) store w of (r, w') \<Rightarrow> (r, self, w'))
      | Some rf \<Rightarrow>
          (case validate V self store of
             (Inl e, self') \<Rightarrow> (Inl e, self', w)
           | (Inr store', self') \<Rightarrow>
               (case dispatch self' (available_methods self') store' w of
                  (r, w') \<Rightarrow> (r, self', w'))))"

text \<open>
  What dynamic field resolution is to produce, in the words of the specification: the
  entries whose keys are not wrapped stay (\<open>literal\<close>), and each entry with a wrapped key
  is kept under the string its attribute holds (\<open>rekeyed\<close>). A schema is \<open>resolvable\<close>
  when each of its wrapped keys names an attribute that holds a string.
\<close>

definition literal :: "'r schema \<Rightarrow> 'r schema" where
  "literal rf = filter (\<lambda>(key, rule). \<not> dynamic key) rf"

fun rekeyed :: "(string \<times> val) list \<Rightarrow> 'r schema \<Rightarrow> 'r schema" where
  "rekeyed attrs [] = []"
| "rekeyed attrs ((key, rule) # rf) =
     (if dynamic key then
        (case getattr attrs (attribute_name key) of
           Inr (VStr v) \<Rightarrow> (v, rule) # rekeyed attrs rf
         | _ \<Rightarrow> rekeyed attrs rf)
      else rekeyed attrs rf)"

fun resolves :: "(string \<times> val) list \<Rightarrow> string \<Rightarrow> bool" where
  "resolves attrs key =
     (case getattr attrs (attribute_name key) of Inr (VStr v) \<Rightarrow> True | _ \<Rightarrow> False)"

definition resolvable :: "(string \<times> val) list \<Rightarrow> 'r schema \<Rightarrow> bool" where
  "resolvable attrs rf = list_all (\<lambda>key. dynamic key \<longrightarrow> resolves attrs key) (map fst rf)"

text \<open>
  Modelled from the spec: the validation capability, which the repository takes from the
  library \<^verbatim>\<open>valideer\<close> and which is not under its sources. In the words of the
  specification, \<^verbatim>\<open>required_fields\<close> describes the expected keys of the container and their
  validation rules; given the schema and the container, the capability returns the
  schema-adapted values or fails with a validation error that has a message; a failure
  is a mismatch with the schema, as a container that lacks a required key is. A rule
  takes the value of its key and gives a message or the adapted value. A mismatch can
  only come from an entry of the schema.
\<close>

type_synonym rule = "val \<Rightarrow> string + val"

fun validate_fields :: "rule schema \<Rightarrow> frozendict \<Rightarrow> string + (string \<times> val) list" where
  "validate_fields [] store = Inr []"
| "validate_fields ((key, rule) # rf) store =
     (case map_of store key of
        None \<Rightarrow> Inl (''missing required properties: '' @ key)
      | Some v \<Rightarrow>
          (case rule v of
             Inl msg \<Rightarrow> Inl msg
           | Inr v' \<Rightarrow>
               (case validate_fields rf store of
                  Inl msg \<Rightarrow> Inl msg
                | Inr adapted \<Rightarrow> Inr ((key, v') # adapted))))"

definition validation :: "rule validator" where
  "validation rf store =
     (case rf of
        None \<Rightarrow> Unparsed ''no schema''
      | Some rf' \<Rightarrow>
          (case validate_fields rf' store of
             Inl msg \<Rightarrow> ValidationError msg
           | Inr adapted \<Rightarrow> Adapted adapted))"

section \<open>Example steps and pipes\<close>

text \<open>
  Steps for the worked examples. Their world is the list of the names of the steps that
  have run, so that every invocation shows in it: \<open>writes n k v\<close> returns
  \<^verbatim>\<open>store.copy(k=v)\<close> and \<open>raises n e\<close> raises \<open>e\<close>, each after putting its name \<open>n\<close>
  on the list. \<open>sets k v\<close> returns \<^verbatim>\<open>store.copy(k=v)\<close> and touches no world.
\<close>

definition writes :: "string \<Rightarrow> string \<Rightarrow> val \<Rightarrow> string list step" where
  "writes n k v = \<lparr> class_name = n, run = (\<lambda>store w. (Inr (copy store [(k, v)]), w @ [n])) \<rparr>"

definition raises :: "string \<Rightarrow> exn \<Rightarrow> string list step" where
  "raises n e = \<lparr> class_name = n, run = (\<lambda>store w. (Inl e, w @ [n])) \<rparr>"

definition sets :: "string \<Rightarrow> val \<Rightarrow> 'w step" where
  "sets k v = \<lparr> class_name = ''Set'', run = (\<lambda>store w. (Inr (copy store [(k, v)]), w)) \<rparr>"

text \<open>
  Two pipe classes that override \<^verbatim>\<open>interrupt\<close> to stop on a container whose key
  \<^verbatim>\<open>stop\<close> is true; the first also overrides \<^verbatim>\<open>after_pipe\<close> to mark what it returns.
\<close>

definition stop_hooks :: hooks where
  "stop_hooks =
     \<lparr> before_pipe = (\<lambda>store. store),
       after_pipe = (\<lambda>store. copy store [(''done'', VBool True)]),
       interrupt = (\<lambda>store. map_of store ''stop'' = Some (VBool True)) \<rparr>"

definition halt_hooks :: hooks where
  "halt_hooks =
     \<lparr> before_pipe = (\<lambda>store. store),
       after_pipe = (\<lambda>store. store),
       interrupt = (\<lambda>store. map_of store ''stop'' = Some (VBool True)) \<rparr>"

text \<open>
  A validator and a step class for the worked examples of dynamic fields. The validator
  requires every key of the schema and checks the rules \<^verbatim>\<open>string\<close> and \<^verbatim>\<open>integer\<close>; the step has the
  attribute \<^verbatim>\<open>table_name\<close> and an \<^verbatim>\<open>extract\<close> method.
\<close>

definition conforms :: "string \<Rightarrow> val \<Rightarrow> bool" where
  "conforms rule v =
     (if rule = ''string'' then (case v of VStr s \<Rightarrow> True | _ \<Rightarrow> False)
      else if rule = ''integer'' then (case v of VInt i \<Rightarrow> True | _ \<Rightarrow> False)
      else True)"

definition all_required :: "string validator" where
  "all_required rf store =
     (case rf of
        None \<Rightarrow> Unparsed ''no schema''
      | Some rf' \<Rightarrow>
          if list_all (\<lambda>(key, rule). case map_of store key of None \<Rightarrow> False | Some v \<Rightarrow> conforms rule v) rf'
          then Adapted store else ValidationError ''invalid'')"

definition table_step :: "'r schema \<Rightarrow> val \<Rightarrow> ('r, string list) Step" where
  "table_step rf table =
     \<lparr> cls_name = ''ETable'',
       available_methods = [''extract'', ''transform'', ''load''],
       required_fields = Some rf,
       attributes = [(''table_name'', table)],
       methods = [(''extract'', run (writes ''ETable'' ''rows'' (VInt 0)))] \<rparr>"

text \<open>
  A step class with no required fields whose \<^verbatim>\<open>extract\<close> hands the container to the
  \<^verbatim>\<open>run\<close> of another step, which raises.
\<close>

definition delegating_step :: "exn \<Rightarrow> ('r, string list) Step" where
  "delegating_step e =
     \<lparr> cls_name = ''EOuter'',
       available_methods = [''extract'', ''transform'', ''load''],
       required_fields = Some [],
       attributes = [],
       methods = [(''extract'', run (raises ''EInner'' e))] \<rparr>"

section \<open>Containers\<close>

lemma map_of_copy_one: "map_of (copy c [(k, v)]) = (map_of c)(k \<mapsto> v)"
  by (simp add: copy_def update_conv')

lemma map_of_copy_two:
  "map_of (copy c [(k1, v1), (k2, v2)]) = (map_of c)(k1 \<mapsto> v1, k2 \<mapsto> v2)"
  by (simp add: copy_def update_conv')

section \<open>Composition with AND\<close>

text \<open>
  Claim C1. If either branch of \<open>A & B\<close> raises during \<^verbatim>\<open>(A & B).run(C)\<close> (the first
  branch, or the second after the first has returned), the composed step returns the
  input container \<open>C\<close> itself, and nothing is raised.
\<close>

theorem and_failure_returns_input:
  assumes "(\<exists>e. fst (run A C w) = Inl e) \<or>
           (\<exists>ra e. fst (run A C w) = Inr ra \<and> fst (run B C (snd (run A C w))) = Inl e)"
  shows "fst (run (Step_and A B) C w) = Inr C"
  using assms by (auto simp: Step_and_def split: prod.splits sum.splits)

theorem and_failure_returns_input_witness:
  "fst (run (raises ''A'' (Exception ''boom'')) [(''x'', VInt 1)] []) = Inl (Exception ''boom'')
   \<and> fst (run (Step_and (raises ''A'' (Exception ''boom'')) (writes ''B'' ''y'' VNone))
             [(''x'', VInt 1)] []) = Inr [(''x'', VInt 1)]
   \<and> fst (run (writes ''A'' ''y'' VNone) [(''x'', VInt 1)] []) = Inr [(''x'', VInt 1), (''y'', VNone)]
   \<and> fst (run (raises ''B'' (Exception ''boom'')) [(''x'', VInt 1)] [''A'']) = Inl (Exception ''boom'')
   \<and> fst (run (Step_and (writes ''A'' ''y'' VNone) (raises ''B'' (Exception ''boom'')))
             [(''x'', VInt 1)] []) = Inr [(''x'', VInt 1)]"
  using and_failure_returns_input
          [of "raises ''A'' (Exception ''boom'')" "[(''x'', VInt 1)]" "[]" "writes ''B'' ''y'' VNone"]
        and_failure_returns_input
          [of "writes ''A'' ''y'' VNone" "[(''x'', VInt 1)]" "[]" "raises ''B'' (Exception ''boom'')"]
  by (simp add: raises_def writes_def copy_def)

text \<open>
  Claim C10. The branches of \<open>A & B\<close> run one after the other, \<open>A\<close> first. If \<open>A\<close> raises,
  the composed step is finished with the input container and the world as \<open>A\<close> left it,
  whatever \<open>B\<close> is: \<open>B\<close> is not invoked. If \<open>A\<close> returns, \<open>B\<close> is run on the same input in
  the world \<open>A\<close> has left.
\<close>

theorem and_runs_first_branch_first:
  "(fst (run A C w) = Inl e \<longrightarrow> run (Step_and A B) C w = (Inr C, snd (run A C w)))
   \<and> (fst (run A C w) = Inr ra \<longrightarrow>
        run (Step_and A B) C w =
          (case run B C (snd (run A C w)) of
             (Inl e', w2) \<Rightarrow> (Inr C, w2)
           | (Inr rb, w2) \<Rightarrow>
               (Inr (copy C [(''obj_a'', VDict ra), (''obj_b'', VDict rb)]), w2)))"
  by (auto simp: Step_and_def split: prod.splits sum.splits)

theorem and_runs_first_branch_first_witness:
  "run (raises ''A'' (Exception ''boom'')) [(''x'', VInt 1)] [] = (Inl (Exception ''boom''), [''A''])
   \<and> run (Step_and (raises ''A'' (Exception ''boom'')) (writes ''B'' ''y'' VNone))
          [(''x'', VInt 1)] [] = (Inr [(''x'', VInt 1)], [''A''])"
  using and_runs_first_branch_first
          [of "raises ''A'' (Exception ''boom'')" "[(''x'', VInt 1)]" "[]" "Exception ''boom''"
              "writes ''B'' ''y'' VNone"]
  by (simp add: raises_def)

text \<open>
  Claim C6, as the code has it. When \<open>A\<close> and then \<open>B\<close> return on \<open>C\<close>, \<open>A & B\<close> returns
  \<^verbatim>\<open>C.copy(obj_a=result_a, obj_b=result_b)\<close>: the two results are stored whole under
  \<^verbatim>\<open>obj_a\<close> and \<^verbatim>\<open>obj_b\<close>, and every key of \<open>C\<close> other than these two keeps its value.
\<close>

theorem and_success_attaches_results:
  assumes "run A C w = (Inr ra, w1)" and "run B C w1 = (Inr rb, w2)"
  shows "run (Step_and A B) C w =
           (Inr (copy C [(''obj_a'', VDict ra), (''obj_b'', VDict rb)]), w2)
    \<and> map_of (copy C [(''obj_a'', VDict ra), (''obj_b'', VDict rb)])
        = (map_of C)(''obj_a'' \<mapsto> VDict ra, ''obj_b'' \<mapsto> VDict rb)
    \<and> (\<forall>k. k \<noteq> ''obj_a'' \<and> k \<noteq> ''obj_b'' \<longrightarrow>
          map_of (copy C [(''obj_a'', VDict ra), (''obj_b'', VDict rb)]) k = map_of C k)"
  using assms by (auto simp: Step_and_def map_of_copy_two split: prod.splits sum.splits)

theorem and_success_attaches_results_witness:
  "run (writes ''A'' ''a'' (VInt 2)) [(''x'', VInt 1)] [] = (Inr [(''x'', VInt 1), (''a'', VInt 2)], [''A''])
   \<and> run (writes ''B'' ''b'' (VInt 3)) [(''x'', VInt 1)] [''A'']
        = (Inr [(''x'', VInt 1), (''b'', VInt 3)], [''A'', ''B''])
   \<and> run (Step_and (writes ''A'' ''a'' (VInt 2)) (writes ''B'' ''b'' (VInt 3))) [(''x'', VInt 1)] []
        = (Inr [(''x'', VInt 1),
                (''obj_a'', VDict [(''x'', VInt 1), (''a'', VInt 2)]),
                (''obj_b'', VDict [(''x'', VInt 1), (''b'', VInt 3)])], [''A'', ''B''])"
  using and_success_attaches_results
          [of "writes ''A'' ''a'' (VInt 2)" "[(''x'', VInt 1)]" "[]" "[(''x'', VInt 1), (''a'', VInt 2)]"
              "[''A'']" "writes ''B'' ''b'' (VInt 3)" "[(''x'', VInt 1), (''b'', VInt 3)]" "[''A'', ''B'']"]
  by (simp add: writes_def copy_def)

text \<open>
  The claim as stated fails on a container that already has the key \<^verbatim>\<open>obj_a\<close>: both
  branches return, and the value \<open>1\<close> the key had is replaced by the first result.
\<close>

theorem and_success_overwrites_counterexample:
  "run (writes ''A'' ''a'' (VInt 2)) [(''obj_a'', VInt 1)] []
     = (Inr [(''obj_a'', VInt 1), (''a'', VInt 2)], [''A''])
   \<and> run (writes ''B'' ''b'' (VInt 3)) [(''obj_a'', VInt 1)] [''A'']
     = (Inr [(''obj_a'', VInt 1), (''b'', VInt 3)], [''A'', ''B''])
   \<and> run (Step_and (writes ''A'' ''a'' (VInt 2)) (writes ''B'' ''b'' (VInt 3))) [(''obj_a'', VInt 1)] []
     = (Inr [(''obj_a'', VDict [(''obj_a'', VInt 1), (''a'', VInt 2)]),
             (''obj_b'', VDict [(''obj_a'', VInt 1), (''b'', VInt 3)])], [''A'', ''B''])
   \<and> map_of [(''obj_a'', VInt 1)] ''obj_a'' = Some (VInt 1)
   \<and> map_of [(''obj_a'', VDict [(''obj_a'', VInt 1), (''a'', VInt 2)]),
              (''obj_b'', VDict [(''obj_a'', VInt 1), (''b'', VInt 3)])] ''obj_a''
       \<noteq> Some (VInt 1)"
  by (simp add: Step_and_def writes_def copy_def)

section \<open>Composition with OR\<close>

text \<open>
  Claim C5. If \<open>A\<close> returns on \<open>C\<close>, then \<^verbatim>\<open>(A | B).run(C)\<close> is \<^verbatim>\<open>A.run(C)\<close>, value and
  world: the result does not depend on \<open>B\<close>, which is not invoked.
\<close>

theorem or_success_returns_first:
  "fst (run A C w) = Inr r \<Longrightarrow> run (Step_or A B) C w = run A C w"
  by (auto simp: Step_or_def split: prod.splits sum.splits)

theorem or_success_returns_first_witness:
  "fst (run (writes ''A'' ''a'' (VInt 2)) [(''x'', VInt 1)] []) = Inr [(''x'', VInt 1), (''a'', VInt 2)]
   \<and> run (Step_or (writes ''A'' ''a'' (VInt 2)) (writes ''B'' ''b'' (VInt 3))) [(''x'', VInt 1)] []
        = (Inr [(''x'', VInt 1), (''a'', VInt 2)], [''A''])"
  using or_success_returns_first
          [of "writes ''A'' ''a'' (VInt 2)" "[(''x'', VInt 1)]" "[]" "[(''x'', VInt 1), (''a'', VInt 2)]"
              "writes ''B'' ''b'' (VInt 3)"]
  by (simp add: writes_def copy_def)

text \<open>
  Claim C2. If \<open>A\<close> raises \<open>e\<close> on \<open>C\<close>, then \<^verbatim>\<open>(A | B).run(C)\<close> is \<^verbatim>\<open>B.run(C')\<close>, in the
  world \<open>A\<close> has left, where \<open>C'\<close> is \<open>C\<close> with the key \<^verbatim>\<open>exception\<close> set to \<open>e\<close>; what \<open>B\<close>
  returns or raises is the outcome.
\<close>

theorem or_failure_runs_second:
  "run A C w = (Inl e, w1) \<Longrightarrow>
     run (Step_or A B) C w = run B (copy C [(''exception'', VExc e)]) w1
     \<and> map_of (copy C [(''exception'', VExc e)]) = (map_of C)(''exception'' \<mapsto> VExc e)"
  by (auto simp: Step_or_def map_of_copy_one split: prod.splits sum.splits)

theorem or_failure_runs_second_witness:
  "run (raises ''A'' (Exception ''boom'')) [(''x'', VInt 1)] [] = (Inl (Exception ''boom''), [''A''])
   \<and> run (Step_or (raises ''A'' (Exception ''boom'')) (writes ''B'' ''b'' (VInt 3))) [(''x'', VInt 1)] []
        = (Inr [(''x'', VInt 1), (''exception'', VExc (Exception ''boom'')), (''b'', VInt 3)],
           [''A'', ''B''])"
  using or_failure_runs_second
          [of "raises ''A'' (Exception ''boom'')" "[(''x'', VInt 1)]" "[]" "Exception ''boom''" "[''A'']"
              "writes ''B'' ''b'' (VInt 3)"]
  by (simp add: raises_def writes_def copy_def)

section \<open>The pipe executor: interruption\<close>

lemma run_pipe_commits:
  "commits h pre p = Some p1 \<Longrightarrow> run_pipe h (pre @ rest) p = run_pipe h rest p1"
proof (induction pre arbitrary: p)
  case Nil
  then show ?case by simp
next
  case (Cons s pre)
  then show ?case by (simp split: prod.splits flow.splits)
qed

lemma iteration_interrupted:
  assumes "run item (self_store p) (world p) = (Inr r, w')" and "interrupt h r"
  shows "iteration h item p =
           (Returned (after_pipe h r),
            (if inspection_mode p then print_step item p else p)\<lparr>world := w'\<rparr>)"
  using assms by (simp add: iteration_def print_step_def)

lemma run_pipe_interrupted:
  assumes "commits h pre p = Some p1"
    and "run item (self_store p1) (world p1) = (Inr r, w')" and "interrupt h r"
  shows "run_pipe h (pre @ item # post) p =
           (Inr (after_pipe h r),
            (if inspection_mode p1 then print_step item p1 else p1)\<lparr>world := w'\<rparr>)"
  using assms by (simp add: run_pipe_commits iteration_interrupted)

text \<open>
  The store of the state reached behind a committed sequence is the result of its last
  step.
\<close>

lemma iteration_next_store:
  "iteration h item p = (Next, p') \<Longrightarrow>
     fst (run item (self_store p) (world p)) = Inr (self_store p')"
  by (auto simp: iteration_def Let_def print_step_def split: prod.splits sum.splits if_splits)

lemma commits_last_result:
  "commits h (pre @ [item]) p = Some p1 \<Longrightarrow>
     \<exists>p0. commits h pre p = Some p0
          \<and> fst (run item (self_store p0) (world p0)) = Inr (self_store p1)"
proof (induction pre arbitrary: p)
  case Nil
  then show ?case
    by (auto split: prod.splits flow.splits dest: iteration_next_store)
next
  case (Cons s pre)
  then show ?case
    by (auto split: prod.splits flow.splits)
qed

text \<open>
  Claim C3, as the code has it. When the steps before step \<open>N\<close> are committed and the
  interruption predicate holds of the result \<open>r\<close> of step \<open>N\<close>, \<^verbatim>\<open>self.store\<close> is left
  at the value committed behind step \<open>N - 1\<close>, not updated with \<open>r\<close>, and the value
  returned is \<^verbatim>\<open>after_pipe\<close> of \<open>r\<close>. The two can differ, as in the example, where the
  store left lacks the keys of the value returned.
\<close>

theorem interrupt_leaves_store:
  assumes "commits h pre p = Some p1"
    and "run item (self_store p1) (world p1) = (Inr r, w')" and "interrupt h r"
  shows "self_store (snd (run_pipe h (pre @ item # post) p)) = self_store p1
       \<and> fst (run_pipe h (pre @ item # post) p) = Inr (after_pipe h r)"
  using run_pipe_interrupted [OF assms, of post]
  by (auto simp: print_step_def)

theorem interrupt_leaves_store_witness:
  "commits stop_hooks [writes ''S1'' ''a'' (VInt 1)] (init stop_hooks [(''x'', VInt 0)] False [] [])
     = Some \<lparr> self_store = [(''x'', VInt 0), (''a'', VInt 1)], inspection_mode = False,
              console = [], world = [''S1''] \<rparr>
   \<and> run (writes ''S2'' ''stop'' (VBool True)) [(''x'', VInt 0), (''a'', VInt 1)] [''S1'']
       = (Inr [(''x'', VInt 0), (''a'', VInt 1), (''stop'', VBool True)], [''S1'', ''S2''])
   \<and> interrupt stop_hooks [(''x'', VInt 0), (''a'', VInt 1), (''stop'', VBool True)]
   \<and> self_store (snd (run_pipe stop_hooks
         [writes ''S1'' ''a'' (VInt 1), writes ''S2'' ''stop'' (VBool True), writes ''S3'' ''c'' (VInt 3)]
         (init stop_hooks [(''x'', VInt 0)] False [] [])))
       = [(''x'', VInt 0), (''a'', VInt 1)]
   \<and> fst (run_pipe stop_hooks
         [writes ''S1'' ''a'' (VInt 1), writes ''S2'' ''stop'' (VBool True), writes ''S3'' ''c'' (VInt 3)]
         (init stop_hooks [(''x'', VInt 0)] False [] []))
       = Inr [(''x'', VInt 0), (''a'', VInt 1), (''stop'', VBool True), (''done'', VBool True)]"
proof -
  let ?p1 = "\<lparr> self_store = [(''x'', VInt 0), (''a'', VInt 1)], inspection_mode = False,
              console = [], world = [''S1''] \<rparr>"
  have c: "commits stop_hooks [writes ''S1'' ''a'' (VInt 1)] (init stop_hooks [(''x'', VInt 0)] False [] [])
     = Some ?p1"
    by (simp add: iteration_def init_def print_step_def stop_hooks_def writes_def copy_def)
  have r: "run (writes ''S2'' ''stop'' (VBool True)) [(''x'', VInt 0), (''a'', VInt 1)] [''S1'']
       = (Inr [(''x'', VInt 0), (''a'', VInt 1), (''stop'', VBool True)], [''S1'', ''S2''])"
    by (simp add: writes_def copy_def)
  have i: "interrupt stop_hooks [(''x'', VInt 0), (''a'', VInt 1), (''stop'', VBool True)]"
    by (simp add: stop_hooks_def)
  have a: "after_pipe stop_hooks [(''x'', VInt 0), (''a'', VInt 1), (''stop'', VBool True)]
             = [(''x'', VInt 0), (''a'', VInt 1), (''stop'', VBool True), (''done'', VBool True)]"
    by (simp add: stop_hooks_def copy_def)
  have s: "self_store ?p1 = [(''x'', VInt 0), (''a'', VInt 1)]" and w: "world ?p1 = [''S1'']"
    by simp_all
  have r2: "run (writes ''S2'' ''stop'' (VBool True)) (self_store ?p1) (world ?p1)
       = (Inr [(''x'', VInt 0), (''a'', VInt 1), (''stop'', VBool True)], [''S1'', ''S2''])"
    using r by simp
  have l: "[writes ''S1'' ''a'' (VInt 1)] @ writes ''S2'' ''stop'' (VBool True) # [writes ''S3'' ''c'' (VInt 3)]
         = [writes ''S1'' ''a'' (VInt 1), writes ''S2'' ''stop'' (VBool True), writes ''S3'' ''c'' (VInt 3)]"
    by simp
  note t = interrupt_leaves_store [OF c r2 i, of "[writes ''S3'' ''c'' (VInt 3)]",
                unfolded l s a]
  from t c r i show ?thesis by blast
qed

text \<open>
  That the caller finds other data in \<^verbatim>\<open>self.store\<close> than was returned does not hold of
  every interrupted run: here the first step returns the container it was given, the
  predicate holds of it, and the store left is the value returned.
\<close>

theorem interrupt_same_data_counterexample:
  "run (writes ''S1'' ''stop'' (VBool True)) [(''stop'', VBool True)] []
     = (Inr [(''stop'', VBool True)], [''S1''])
   \<and> interrupt halt_hooks [(''stop'', VBool True)]
   \<and> run_pipe halt_hooks [writes ''S1'' ''stop'' (VBool True)]
        (init halt_hooks [(''stop'', VBool True)] False [] [])
     = (Inr [(''stop'', VBool True)],
        \<lparr> self_store = [(''stop'', VBool True)], inspection_mode = False, console = [],
          world = [''S1''] \<rparr>)"
  by (simp add: iteration_def init_def halt_hooks_def writes_def copy_def)

text \<open>
  Claim C4. At the first position \<open>N\<close> where the interruption predicate holds of the
  step's result \<open>r\<close>, \<^verbatim>\<open>_run_pipe\<close> returns \<^verbatim>\<open>after_pipe\<close> of \<open>r\<close>; the outcome is that of
  the sequence cut behind step \<open>N\<close>, whatever the steps after it are, and the world is
  the one step \<open>N\<close> has left: no later step runs. In the example the pipe is
  \<open>[S1, S2, S3]\<close>, the predicate holds behind \<open>S2\<close>, and only \<open>S1\<close> and \<open>S2\<close> have run.
\<close>

theorem interrupt_stops_iteration:
  assumes "commits h pre p = Some p1"
    and "run item (self_store p1) (world p1) = (Inr r, w')" and "interrupt h r"
  shows "run_pipe h (pre @ item # post) p = run_pipe h (pre @ [item]) p
       \<and> fst (run_pipe h (pre @ item # post) p) = Inr (after_pipe h r)
       \<and> world (snd (run_pipe h (pre @ item # post) p)) = w'"
  using run_pipe_interrupted [OF assms, of post] run_pipe_interrupted [OF assms, of "[]"]
  by (auto simp: print_step_def)

theorem interrupt_stops_iteration_witness:
  "commits stop_hooks [writes ''S1'' ''a'' (VInt 1)] (init stop_hooks [(''x'', VInt 0)] True [] [])
     = Some \<lparr> self_store = [(''x'', VInt 0), (''a'', VInt 1)], inspection_mode = True,
              console = [(''S1'', [(''x'', VInt 0)])], world = [''S1''] \<rparr>
   \<and> run (writes ''S2'' ''stop'' (VBool True)) [(''x'', VInt 0), (''a'', VInt 1)] [''S1'']
       = (Inr [(''x'', VInt 0), (''a'', VInt 1), (''stop'', VBool True)], [''S1'', ''S2''])
   \<and> interrupt stop_hooks [(''x'', VInt 0), (''a'', VInt 1), (''stop'', VBool True)]
   \<and> fst (run_pipe stop_hooks
         [writes ''S1'' ''a'' (VInt 1), writes ''S2'' ''stop'' (VBool True), writes ''S3'' ''c'' (VInt 3)]
         (init stop_hooks [(''x'', VInt 0)] True [] []))
       = Inr [(''x'', VInt 0), (''a'', VInt 1), (''stop'', VBool True), (''done'', VBool True)]
   \<and> world (snd (run_pipe stop_hooks
         [writes ''S1'' ''a'' (VInt 1), writes ''S2'' ''stop'' (VBool True), writes ''S3'' ''c'' (VInt 3)]
         (init stop_hooks [(''x'', VInt 0)] True [] [])))
       = [''S1'', ''S2'']"
proof -
  let ?p1 = "\<lparr> self_store = [(''x'', VInt 0), (''a'', VInt 1)], inspection_mode = True,
              console = [(''S1'', [(''x'', VInt 0)])], world = [''S1''] \<rparr>"
  have c: "commits stop_hooks [writes ''S1'' ''a'' (VInt 1)] (init stop_hooks [(''x'', VInt 0)] True [] [])
     = Some ?p1"
    by (simp add: iteration_def init_def print_step_def stop_hooks_def writes_def copy_def)
  have r: "run (writes ''S2'' ''stop'' (VBool True)) [(''x'', VInt 0), (''a'', VInt 1)] [''S1'']
       = (Inr [(''x'', VInt 0), (''a'', VInt 1), (''stop'', VBool True)], [''S1'', ''S2''])"
    by (simp add: writes_def copy_def)
  have i: "interrupt stop_hooks [(''x'', VInt 0), (''a'', VInt 1), (''stop'', VBool True)]"
    by (simp add: stop_hooks_def)
  have a: "after_pipe stop_hooks [(''x'', VInt 0), (''a'', VInt 1), (''stop'', VBool True)]
             = [(''x'', VInt 0), (''a'', VInt 1), (''stop'', VBool True), (''done'', VBool True)]"
    by (simp add: stop_hooks_def copy_def)
  have s: "self_store ?p1 = [(''x'', VInt 0), (''a'', VInt 1)]" and w: "world ?p1 = [''S1'']"
    by simp_all
  have r2: "run (writes ''S2'' ''stop'' (VBool True)) (self_store ?p1) (world ?p1)
       = (Inr [(''x'', VInt 0), (''a'', VInt 1), (''stop'', VBool True)], [''S1'', ''S2''])"
    using r by simp
  have l: "[writes ''S1'' ''a'' (VInt 1)] @ writes ''S2'' ''stop'' (VBool True) # [writes ''S3'' ''c'' (VInt 3)]
         = [writes ''S1'' ''a'' (VInt 1), writes ''S2'' ''stop'' (VBool True), writes ''S3'' ''c'' (VInt 3)]"
    by simp
  note t = interrupt_stops_iteration [OF c r2 i, of "[writes ''S3'' ''c'' (VInt 3)]",
                unfolded l s a]
  from t c r i show ?thesis by blast
qed

section \<open>The pipe executor: pure steps\<close>

lemma pure_step_fst: "pure_step s \<Longrightarrow> fst (run s c w) = fst (run s c w')"
  by (metis fst_conv pure_step_def)

lemma iteration_pure:
  assumes "pure_step s" and "self_store p = self_store q"
  shows "fst (iteration h s p) = fst (iteration h s q)
       \<and> self_store (snd (iteration h s p)) = self_store (snd (iteration h s q))"
  using pure_step_fst [OF assms(1), of "self_store q" "world p" "world q"] assms(2)
  by (auto simp: iteration_def Let_def print_step_def split: prod.splits sum.splits)

lemma run_pipe_pure:
  assumes "list_all pure_step steps" and "self_store p = self_store q"
  shows "fst (run_pipe h steps p) = fst (run_pipe h steps q)
       \<and> self_store (snd (run_pipe h steps p)) = self_store (snd (run_pipe h steps q))"
  using assms
proof (induction steps arbitrary: p q)
  case Nil
  then show ?case by simp
next
  case (Cons s steps)
  have ps: "pure_step s" and rest: "list_all pure_step steps"
    using Cons.prems(1) by simp_all
  obtain f p' where ip: "iteration h s p = (f, p')" by (cases "iteration h s p")
  obtain g q' where iq: "iteration h s q = (g, q')" by (cases "iteration h s q")
  from iteration_pure [OF ps Cons.prems(2), of h] ip iq
  have fg: "f = g" and st: "self_store p' = self_store q'" by simp_all
  show ?case
  proof (cases f)
    case Next
    with fg ip iq Cons.IH [OF rest st] show ?thesis by simp
  qed (use fg ip iq st in simp_all)
qed

text \<open>
  Claim C9. When every step of the sequence is a pure function of its input container,
  two runs of the pipe built from the same initial mapping return the same value (or
  raise the same exception) and leave the same store, in whatever world, with whatever
  inspection flag and console each of them starts.
\<close>

theorem pure_pipe_same_result:
  assumes "list_all pure_step steps"
  shows "fst (run_pipe h steps (init h initial i1 o1 w1))
           = fst (run_pipe h steps (init h initial i2 o2 w2))
       \<and> self_store (snd (run_pipe h steps (init h initial i1 o1 w1)))
           = self_store (snd (run_pipe h steps (init h initial i2 o2 w2)))"
  using run_pipe_pure [OF assms, of "init h initial i1 o1 w1" "init h initial i2 o2 w2" h]
  by (simp add: init_def)

lemma pure_step_sets: "pure_step (sets k v)"
  by (simp add: pure_step_def sets_def)

theorem pure_pipe_same_result_witness:
  "pure_step (sets ''a'' (VInt 1) :: nat step) \<and> pure_step (sets ''b'' (VInt 2) :: nat step)
   \<and> fst (run_pipe BasePipe [sets ''a'' (VInt 1), sets ''b'' (VInt 2)]
        (init BasePipe [(''x'', VInt 0)] False [] (0::nat)))
     = Inr [(''x'', VInt 0), (''a'', VInt 1), (''b'', VInt 2)]
   \<and> fst (run_pipe BasePipe [sets ''a'' (VInt 1), sets ''b'' (VInt 2)]
        (init BasePipe [(''x'', VInt 0)] True [(''Set'', [])] (7::nat)))
     = Inr [(''x'', VInt 0), (''a'', VInt 1), (''b'', VInt 2)]"
proof -
  have l: "list_all pure_step [sets ''a'' (VInt 1) :: nat step, sets ''b'' (VInt 2)]"
    by (simp add: pure_step_sets)
  have e: "fst (run_pipe BasePipe [sets ''a'' (VInt 1), sets ''b'' (VInt 2)]
        (init BasePipe [(''x'', VInt 0)] False [] (0::nat)))
     = Inr [(''x'', VInt 0), (''a'', VInt 1), (''b'', VInt 2)]"
    by (simp add: iteration_def init_def BasePipe_def sets_def copy_def)
  note t = pure_pipe_same_result
             [OF l, of BasePipe "[(''x'', VInt 0)]" False "[]" 0 True "[(''Set'', [])]" 7]
  have e2: "fst (run_pipe BasePipe [sets ''a'' (VInt 1), sets ''b'' (VInt 2)]
        (init BasePipe [(''x'', VInt 0)] True [(''Set'', [])] (7::nat)))
     = Inr [(''x'', VInt 0), (''a'', VInt 1), (''b'', VInt 2)]"
    using trans [OF sym [OF conjunct1 [OF t]] e] .
  from e e2 pure_step_sets [of "''a''" "VInt 1"] pure_step_sets [of "''b''" "VInt 2"]
  show ?thesis by blast
qed

section \<open>Dynamic field resolution and validation\<close>

lemma update_fresh: "k \<notin> fst ` set al \<Longrightarrow> AList.update k v al = al @ [(k, v)]"
  by (induction al) auto

lemma delete_middle:
  "distinct (map fst (lit @ (k, r) # xs)) \<Longrightarrow> AList.delete k (lit @ (k, r) # xs) = lit @ xs"
  by (induction lit) (auto simp: image_iff)

lemma map_of_middle:
  "distinct (map fst (lit @ (k, r) # xs)) \<Longrightarrow> map_of (lit @ (k, r) # xs) k = Some r"
  by (induction lit) (auto simp: image_iff)

lemma duplicate_keyword_fresh:
  "set (map fst kw) \<inter> set ks = {} \<Longrightarrow>
     duplicate_keyword ks (map (\<lambda>(k, r). (VStr k, r)) kw) = None"
  by (induction kw) auto

lemma kwargs_strs: "kwargs (map (\<lambda>(k, r). (VStr k, r)) kw) = Some kw"
  by (induction kw) auto

lemma attribute_name_plain:
  assumes "\<forall>c \<in> set n. c \<noteq> CHR ''{'' \<and> c \<noteq> CHR ''}'' \<and> c \<noteq> CHR ''+''"
  shows "attribute_name (''{'' @ n @ ''}'') = n" and "attribute_name (''+{'' @ n @ ''}'') = n"
  using assms by (simp_all add: attribute_name_def variable_name_def filter_id_conv)

lemma dynamic_braced: "dynamic (''{'' @ n @ ''}'')" "dynamic (''+{'' @ n @ ''}'')"
  by (simp_all add: dynamic_def startswith_def endswith_def)

lemma parse_keys_resolved:
  assumes "distinct (map fst (lit @ xs))"
    and "resolvable attrs xs"
    and "distinct (map fst (dc @ rekeyed attrs xs))"
  shows "parse_keys attrs (map fst xs) (lit @ xs) (map (\<lambda>(k, r). (VStr k, r)) dc)
           = (Inr (map (\<lambda>(k, r). (VStr k, r)) (dc @ rekeyed attrs xs)), lit @ literal xs)"
  using assms
proof (induction xs arbitrary: lit dc)
  case Nil
  then show ?case by (simp add: literal_def)
next
  case (Cons x xs)
  obtain key rule where x: "x = (key, rule)" by (cases x)
  have r: "resolvable attrs xs"
    using Cons.prems(2) by (simp add: resolvable_def)
  show ?case
  proof (cases "dynamic key")
    case False
    have d: "distinct (map fst ((lit @ [(key, rule)]) @ xs))"
      using Cons.prems(1) x by simp
    have c: "distinct (map fst (dc @ rekeyed attrs xs))"
      using Cons.prems(3) x False by simp
    have lit: "literal (x # xs) = (key, rule) # literal xs"
      using False x by (simp add: literal_def)
    have "parse_keys attrs (map fst (x # xs)) (lit @ x # xs) (map (\<lambda>(k, r). (VStr k, r)) dc)
        = parse_keys attrs (map fst xs) ((lit @ [(key, rule)]) @ xs) (map (\<lambda>(k, r). (VStr k, r)) dc)"
      using False x by simp
    also have "\<dots> = (Inr (map (\<lambda>(k, r). (VStr k, r)) (dc @ rekeyed attrs xs)),
                     (lit @ [(key, rule)]) @ literal xs)"
      by (rule Cons.IH [OF d r c])
    finally show ?thesis
      using False x lit by simp
  next
    case True
    from Cons.prems(2) True x have "resolves attrs key"
      by (simp add: resolvable_def)
    then obtain v where v: "getattr attrs (attribute_name key) = Inr (VStr v)"
      by (auto split: sum.splits val.splits)
    have rk: "rekeyed attrs (x # xs) = (v, rule) # rekeyed attrs xs"
      using True x v by simp
    have d: "distinct (map fst (lit @ xs))"
      using Cons.prems(1) by simp
    have c: "distinct (map fst ((dc @ [(v, rule)]) @ rekeyed attrs xs))"
      using Cons.prems(3) rk by simp
    have "v \<notin> fst ` set dc"
      using Cons.prems(3) rk by auto
    then have fresh: "VStr v \<notin> fst ` set (map (\<lambda>(k, r). (VStr k, r)) dc)"
      by (auto simp: image_iff)
    have upd: "AList.update (VStr v) rule (map (\<lambda>(k, r). (VStr k, r)) dc)
                 = map (\<lambda>(k, r). (VStr k, r)) (dc @ [(v, rule)])"
      using update_fresh [OF fresh] by simp
    have d': "distinct (map fst (lit @ (key, rule) # xs))"
      using Cons.prems(1) x by simp
    have lit: "literal (x # xs) = literal xs"
      using True x by (simp add: literal_def)
    have "parse_keys attrs (map fst (x # xs)) (lit @ x # xs) (map (\<lambda>(k, r). (VStr k, r)) dc)
        = parse_keys attrs (map fst xs) (lit @ xs) (map (\<lambda>(k, r). (VStr k, r)) (dc @ [(v, rule)]))"
      using True x v upd delete_middle [OF d'] map_of_middle [OF d'] by simp
    also have "\<dots> = (Inr (map (\<lambda>(k, r). (VStr k, r)) ((dc @ [(v, rule)]) @ rekeyed attrs xs)),
                     lit @ literal xs)"
      by (rule Cons.IH [OF d r c])
    finally show ?thesis
      using rk lit by simp
  qed
qed

lemma rekeyed_member:
  "(key, rule) \<in> set rf \<Longrightarrow> dynamic key \<Longrightarrow>
   getattr attrs (attribute_name key) = Inr (VStr v) \<Longrightarrow> (v, rule) \<in> set (rekeyed attrs rf)"
  by (induction rf) (auto split: sum.splits val.splits)

lemma parse_keys_literal:
  "list_all (\<lambda>key. \<not> dynamic key) keys \<Longrightarrow> parse_keys attrs keys rf dc = (Inr dc, rf)"
  by (induction keys) auto

lemma parse_dynamic_fields_literal:
  assumes "required_fields S = Some rf" and "list_all (\<lambda>key. \<not> dynamic key) (map fst rf)"
  shows "parse_dynamic_fields S = (None, S)"
  using assms by (simp add: parse_dynamic_fields_def parse_keys_literal merge_def)

lemma parse_dynamic_fields_resolved:
  assumes "required_fields S = Some rf"
    and "distinct (map fst rf)"
    and "resolvable (attributes S) rf"
    and "distinct (map fst (literal rf @ rekeyed (attributes S) rf))"
  shows "parse_dynamic_fields S =
           (None, S\<lparr>required_fields := Some (literal rf @ rekeyed (attributes S) rf)\<rparr>)"
proof -
  have pk: "parse_keys (attributes S) (map fst rf) rf []
              = (Inr (map (\<lambda>(k, r). (VStr k, r)) (rekeyed (attributes S) rf)), literal rf)"
    using parse_keys_resolved [of "[]" rf "attributes S" "[]"] assms(2,3,4) by simp
  have "duplicate_keyword (map fst (literal rf))
          (map (\<lambda>(k, r). (VStr k, r)) (rekeyed (attributes S) rf)) = None"
    using assms(4) by (intro duplicate_keyword_fresh) auto
  then have "merge (literal rf) (map (\<lambda>(k, r). (VStr k, r)) (rekeyed (attributes S) rf))
          = Inr (literal rf @ rekeyed (attributes S) rf)"
    by (simp add: merge_def kwargs_strs)
  with pk assms(1) show ?thesis
    by (simp add: parse_dynamic_fields_def)
qed

text \<open>
  Claim C7, as the code has it. For a step whose \<^verbatim>\<open>required_fields\<close> is the empty mapping
  and for every container, the validation of \<^verbatim>\<open>Step.run\<close> raises nothing: resolution finds
  no key, the empty schema has no entry the container can mismatch, \<^verbatim>\<open>validate\<close> returns
  the container and leaves the instance as it is, and \<^verbatim>\<open>run\<close> is the call of the
  capability method on that container. A validation error comes out of \<^verbatim>\<open>run\<close> only if
  the capability method raises it.
\<close>

theorem empty_required_fields_run_is_dispatch:
  assumes "required_fields S = Some []"
  shows "validate validation S C = (Inr C, S)
       \<and> Step_run validation S C w =
           (case dispatch S (available_methods S) C w of (r, w') \<Rightarrow> (r, S, w'))
       \<and> (\<forall>msg. fst (Step_run validation S C w) = Inl (StepValidationException msg) \<longrightarrow>
             fst (dispatch S (available_methods S) C w) = Inl (StepValidationException msg))"
proof -
  have "parse_dynamic_fields S = (None, S)"
    using parse_dynamic_fields_literal [OF assms] by simp
  then have v: "validate validation S C = (Inr C, S)"
    using assms by (simp add: validate_def validation_def copy_def)
  then have r: "Step_run validation S C w =
           (case dispatch S (available_methods S) C w of (r, w') \<Rightarrow> (r, S, w'))"
    using assms by (simp add: Step_run_def)
  then have "\<forall>msg. fst (Step_run validation S C w) = Inl (StepValidationException msg) \<longrightarrow>
             fst (dispatch S (available_methods S) C w) = Inl (StepValidationException msg)"
    by (auto split: prod.splits)
  with v r show ?thesis by blast
qed

theorem empty_required_fields_run_is_dispatch_witness:
  "required_fields (table_step [] VNone :: (rule, string list) Step) = Some []
   \<and> validate validation (table_step [] VNone) [(''x'', VInt 1)]
        = (Inr [(''x'', VInt 1)], table_step [] VNone)
   \<and> Step_run validation (table_step [] VNone) [(''x'', VInt 1)] []
        = (Inr [(''x'', VInt 1), (''rows'', VInt 0)], table_step [] VNone, [''ETable''])"
proof -
  let ?S = "table_step [] VNone :: (rule, string list) Step"
  have r: "required_fields ?S = Some []"
    by (simp add: table_step_def)
  have d: "dispatch ?S (available_methods ?S) [(''x'', VInt 1)] []
           = (Inr [(''x'', VInt 1), (''rows'', VInt 0)], [''ETable''])"
    by (simp add: table_step_def writes_def copy_def)
  note t = empty_required_fields_run_is_dispatch [of ?S "[(''x'', VInt 1)]" "[]", OF r, unfolded d]
  from t r show ?thesis by simp
qed

text \<open>
  The claim as stated fails on a step whose capability method raises the validation
  error of another step: \<^verbatim>\<open>required_fields\<close> is empty, the validation of the step passes,
  and \<^verbatim>\<open>run\<close> raises \<^verbatim>\<open>StepValidationException\<close>, which nothing in \<^verbatim>\<open>Step.run\<close> catches.
\<close>

theorem empty_required_fields_method_raises_counterexample:
  "required_fields (delegating_step (StepValidationException ''inner'') :: (rule, string list) Step)
     = Some []
   \<and> validate validation (delegating_step (StepValidationException ''inner'')) [(''x'', VInt 1)]
     = (Inr [(''x'', VInt 1)], delegating_step (StepValidationException ''inner''))
   \<and> Step_run validation (delegating_step (StepValidationException ''inner'')) [(''x'', VInt 1)] []
     = (Inl (StepValidationException ''inner''),
        delegating_step (StepValidationException ''inner''), [''EInner''])"
  by (simp add: Step_run_def validate_def validation_def parse_dynamic_fields_def merge_def
                delegating_step_def raises_def copy_def)

text \<open>
  Claim C8, as the code has it. Let \<^verbatim>\<open>required_fields\<close> have distinct keys, one of them
  \<^verbatim>\<open>{name}\<close> or \<^verbatim>\<open>+{name}\<close> with a rule, where \<open>name\<close> has no brace and no plus sign and
  the attribute \<open>name\<close> holds the string \<open>v\<close>. If every wrapped key of the schema names an
  attribute holding a string, and these strings differ from each other and from the
  keys that are not wrapped, and are not wrapped keys themselves, then the first
  validation call leaves \<^verbatim>\<open>required_fields\<close> as the entries that were not wrapped followed
  by the re-keyed ones: the rule is found under \<open>v\<close>, no wrapped key is left, and the
  step validates as the step with that schema does.
\<close>

theorem dynamic_field_rekeyed:
  assumes "required_fields S = Some rf" and "distinct (map fst rf)"
    and "resolvable (attributes S) rf"
    and "distinct (map fst (literal rf @ rekeyed (attributes S) rf))"
    and "list_all (\<lambda>k. \<not> dynamic k) (map fst (rekeyed (attributes S) rf))"
    and "(key, rule) \<in> set rf"
    and "key = ''{'' @ n @ ''}'' \<or> key = ''+{'' @ n @ ''}''"
    and "list_all (\<lambda>c. c \<noteq> CHR ''{'' \<and> c \<noteq> CHR ''}'' \<and> c \<noteq> CHR ''+'') n"
    and "getattr (attributes S) n = Inr (VStr v)"
  shows "required_fields (snd (validate V S store))
           = Some (literal rf @ rekeyed (attributes S) rf)
       \<and> map_of (literal rf @ rekeyed (attributes S) rf) v = Some rule
       \<and> list_all (\<lambda>k. \<not> dynamic k) (map fst (literal rf @ rekeyed (attributes S) rf))
       \<and> key \<notin> set (map fst (literal rf @ rekeyed (attributes S) rf))
       \<and> validate V S store
           = validate V (S\<lparr>required_fields := Some (literal rf @ rekeyed (attributes S) rf)\<rparr>) store"
proof -
  let ?rf = "literal rf @ rekeyed (attributes S) rf"
  let ?S = "S\<lparr>required_fields := Some ?rf\<rparr>"
  have p: "parse_dynamic_fields S = (None, ?S)"
    by (rule parse_dynamic_fields_resolved [OF assms(1-4)])
  have nd: "list_all (\<lambda>k. \<not> dynamic k) (map fst ?rf)"
    using assms(5) by (auto simp: literal_def list_all_iff)
  have p': "parse_dynamic_fields ?S = (None, ?S)"
    using parse_dynamic_fields_literal [of ?S ?rf] nd by simp
  have plain: "\<forall>c \<in> set n. c \<noteq> CHR ''{'' \<and> c \<noteq> CHR ''}'' \<and> c \<noteq> CHR ''+''"
    using assms(8) by (simp add: list_all_iff)
  have dk: "dynamic key" and an: "attribute_name key = n"
    using assms(7) dynamic_braced attribute_name_plain [OF plain] by auto
  have "(v, rule) \<in> set (rekeyed (attributes S) rf)"
    using rekeyed_member [OF assms(6) dk] an assms(9) by simp
  then have m: "map_of ?rf v = Some rule"
    using assms(4) by (intro map_of_is_SomeI) auto
  have k: "key \<notin> set (map fst ?rf)"
    using nd dk by (auto simp: list_all_iff)
  have v: "validate V S store = validate V ?S store"
    using p p' by (simp add: validate_def)
  have "required_fields (snd (validate V S store)) = Some ?rf"
    using p by (simp add: validate_def split: verdict.splits)
  with m nd k v show ?thesis by blast
qed

theorem dynamic_field_rekeyed_witness:
  "required_fields (table_step [(''{table_name}'', ''string'')] (VStr ''users''))
     = Some [(''{table_name}'', ''string'')]
   \<and> getattr (attributes (table_step [(''{table_name}'', ''string'')] (VStr ''users''))) ''table_name''
     = Inr (VStr ''users'')
   \<and> required_fields (snd (validate all_required
        (table_step [(''{table_name}'', ''string'')] (VStr ''users'')) [(''users'', VStr ''ann'')]))
     = Some [(''users'', ''string'')]
   \<and> map_of [(''users'', ''string'')] ''users'' = Some ''string''
   \<and> ''{table_name}'' \<notin> set (map fst [(''users'', ''string'')])
   \<and> validate all_required (table_step [(''{table_name}'', ''string'')] (VStr ''users''))
        [(''users'', VStr ''ann'')]
     = validate all_required (table_step [(''users'', ''string'')] (VStr ''users''))
        [(''users'', VStr ''ann'')]"
proof -
  let ?S = "table_step [(''{table_name}'', ''string'')] (VStr ''users'')"
  let ?rf = "[(''{table_name}'', ''string'')]"
  have dyn: "dynamic ''{table_name}''" and nd: "\<not> dynamic ''users''"
    by (simp_all add: dynamic_def startswith_def endswith_def)
  have an: "attribute_name ''{table_name}'' = ''table_name''"
    by (simp add: attribute_name_def variable_name_def)
  have g: "getattr (attributes ?S) ''table_name'' = Inr (VStr ''users'')"
    by (simp add: table_step_def getattr_def)
  have rk: "rekeyed (attributes ?S) ?rf = [(''users'', ''string'')]"
    using dyn an g by simp
  have li: "literal ?rf = []"
    using dyn by (simp add: literal_def)
  have h1: "required_fields ?S = Some ?rf"
    by (simp add: table_step_def)
  have h2: "distinct (map fst ?rf)"
    by simp
  have h3: "resolvable (attributes ?S) ?rf"
    using an g by (simp add: resolvable_def)
  have h4: "distinct (map fst (literal ?rf @ rekeyed (attributes ?S) ?rf))"
    using li rk by simp
  have h5: "list_all (\<lambda>k. \<not> dynamic k) (map fst (rekeyed (attributes ?S) ?rf))"
    using rk nd by simp
  have h6: "(''{table_name}'', ''string'') \<in> set ?rf"
    by simp
  have h7: "''{table_name}'' = ''{'' @ ''table_name'' @ ''}''
           \<or> ''{table_name}'' = ''+{'' @ ''table_name'' @ ''}''"
    by simp
  have h8: "list_all (\<lambda>c. c \<noteq> CHR ''{'' \<and> c \<noteq> CHR ''}'' \<and> c \<noteq> CHR ''+'') ''table_name''"
    by simp
  have e: "?S\<lparr>required_fields := Some [(''users'', ''string'')]\<rparr>
             = table_step [(''users'', ''string'')] (VStr ''users'')"
    by (simp add: table_step_def)
  have a: "literal ?rf @ rekeyed (attributes ?S) ?rf = [(''users'', ''string'')]"
    using li rk by simp
  note t = dynamic_field_rekeyed
             [of ?S ?rf "''{table_name}''" "''string''" "''table_name''" "''users''" all_required
                 "[(''users'', VStr ''ann'')]",
              OF h1 h2 h3 h4 h5 h6 h7 h8 g, unfolded a e]
  from t h1 g show ?thesis by blast
qed

text \<open>
  The claim does not hold of every step. Here \<^verbatim>\<open>table_name\<close> holds \<^verbatim>\<open>users\<close>, which
  is a key of the schema already: \<^verbatim>\<open>dict(**self.required_fields, **dynamic_config)\<close>
  raises \<^verbatim>\<open>TypeError\<close>, the wrapped key has been deleted, and its rule is not found under
  \<^verbatim>\<open>users\<close>; the step with the schema \<^verbatim>\<open>{'users': 'string'}\<close> validates the same
  container.
\<close>

theorem dynamic_field_collision_counterexample:
  "required_fields (table_step [(''users'', ''integer''), (''{table_name}'', ''string'')] (VStr ''users''))
     = Some [(''users'', ''integer''), (''{table_name}'', ''string'')]
   \<and> getattr (attributes (table_step [(''users'', ''integer''), (''{table_name}'', ''string'')]
        (VStr ''users''))) ''table_name'' = Inr (VStr ''users'')
   \<and> validate all_required
        (table_step [(''users'', ''integer''), (''{table_name}'', ''string'')] (VStr ''users''))
        [(''users'', VStr ''ann'')]
     = (Inl (TypeError (''dict() got multiple values for keyword argument '' @ [CHR 0x27] @ ''users''
                          @ [CHR 0x27])),
        table_step [(''users'', ''integer'')] (VStr ''users''))
   \<and> map_of [(''users'', ''integer'')] ''users'' \<noteq> Some ''string''
   \<and> validate all_required (table_step [(''users'', ''string'')] (VStr ''users''))
        [(''users'', VStr ''ann'')]
     = (Inr [(''users'', VStr ''ann'')], table_step [(''users'', ''string'')] (VStr ''users''))"
proof -
  have dyn: "dynamic ''{table_name}''" and nd: "\<not> dynamic ''users''"
    by (simp_all add: dynamic_def startswith_def endswith_def)
  have an: "attribute_name ''{table_name}'' = ''table_name''"
    by (simp add: attribute_name_def variable_name_def)
  show ?thesis
    using dyn nd an
    by (simp add: validate_def parse_dynamic_fields_def merge_def table_step_def getattr_def
                  all_required_def conforms_def copy_def)
qed

end
